theory Spec2Isabelle
  imports Main "HOL-Library.Word"
begin

section \<open>Values shared by the models\<close>

text \<open>
  The front end is TypeScript running on a single-threaded event loop. An awaited
  promise either resolves with a value or rejects with an error; an \<open>async\<close> function
  of the application settles the same way. The error carried is the message the
  \<open>catch\<close> blocks print.
\<close>

type_synonym error = string

datatype 'a settled = Resolved 'a | Rejected error

text \<open>
  The lines written to the console. The source prints Chinese text with emoji; each
  constructor stands for one \<open>console.log\<close>/\<open>console.error\<close> call site:
  \<^item> \<open>Log_starting\<close>, \<open>Log_started\<close>, \<open>Err_start_failed\<close>: \<open>startListening\<close>;
  \<^item> \<open>Log_stopping\<close>, \<open>Log_stopped\<close>, \<open>Err_stop_failed\<close>: \<open>stopListening\<close>;
  \<^item> \<open>Log_cleaned\<close>, \<open>Err_cleanup_failed\<close>: \<open>cleanup\<close>;
  \<^item> \<open>Log_listening_state\<close>: \<open>setListening\<close>;
  \<^item> \<open>Log_page_hidden\<close>, \<open>Log_page_shown\<close>: the visibility handler;
  \<^item> \<open>Log_settings_synced\<close>, \<open>Err_load_failed\<close>: \<open>loadSettings\<close>;
  \<^item> \<open>Log_settings_updated\<close>, \<open>Err_set_failed\<close>: \<open>setDbMonitoringEnabled\<close>;
  \<^item> \<open>Log_event_received\<close>, \<open>Log_diff_summary\<close>, \<open>Log_trigger_update\<close>,
    \<open>Log_event_emitted\<close>: \<open>handleDatabaseChange\<close>.
\<close>

datatype log_entry =
    Log_starting | Log_started | Err_start_failed error
  | Log_stopping | Log_stopped | Err_stop_failed error
  | Log_cleaned | Err_cleanup_failed error
  | Log_listening_state bool
  | Log_page_hidden | Log_page_shown
  | Log_settings_synced bool | Err_load_failed error
  | Log_settings_updated bool | Err_set_failed error
  | Log_event_received | Log_diff_summary | Log_trigger_update | Log_event_emitted

section \<open>The backend as the front end sees it\<close>

text \<open>
  The Tauri backend is an external collaborator. The front end reaches it through
  \<open>invoke(command)\<close>, \<open>listen('database-changed', handler)\<close> and the \<open>UnlistenFn\<close> that
  \<open>listen\<close> resolves to. The model keeps what the claims talk about: the registrations
  that are live on the channel (each named by the event id the backend gave it, oldest
  first), the next free event id, the calls issued so far, and the console.

  How a call settles is not decided by the front end, so every operation takes the
  outcome of each backend call it awaits as an argument. A rejected \<open>unlisten\<close> leaves
  the registration where it was; a rejected \<open>listen\<close> creates none.
\<close>

datatype command =
    Is_db_monitoring_enabled
  | Set_db_monitoring_enabled bool
  | Start_database_monitoring
  | Save_db_monitoring_state bool

datatype ipc = Listen | Unlisten nat | Invoke command

record env =
  registered :: "nat list"
  next_id :: nat
  calls :: "ipc list"
  console :: "log_entry list"

definition log :: "log_entry \<Rightarrow> 'a env_scheme \<Rightarrow> 'a env_scheme" where
  "log l s = s\<lparr>console := console s @ [l]\<rparr>"

definition issue :: "ipc \<Rightarrow> 'a env_scheme \<Rightarrow> 'a env_scheme" where
  "issue c s = s\<lparr>calls := calls s @ [c]\<rparr>"

definition settle_listen :: "unit settled \<Rightarrow> 'a env_scheme \<Rightarrow> nat settled \<times> 'a env_scheme" where
  "settle_listen r s =
     (case r of
        Rejected e \<Rightarrow> (Rejected e, s)
      | Resolved _ \<Rightarrow>
          (Resolved (next_id s),
           s\<lparr>registered := registered s @ [next_id s], next_id := Suc (next_id s)\<rparr>))"

definition settle_unlisten :: "nat \<Rightarrow> unit settled \<Rightarrow> 'a env_scheme \<Rightarrow> unit settled \<times> 'a env_scheme" where
  "settle_unlisten h r s =
     (case r of
        Rejected e \<Rightarrow> (Rejected e, s)
      | Resolved _ \<Rightarrow> (Resolved (), s\<lparr>registered := removeAll h (registered s)\<rparr>))"

definition listen :: "unit settled \<Rightarrow> 'a env_scheme \<Rightarrow> nat settled \<times> 'a env_scheme" where
  "listen r s = settle_listen r (issue Listen s)"

definition unlisten :: "nat \<Rightarrow> unit settled \<Rightarrow> 'a env_scheme \<Rightarrow> unit settled \<times> 'a env_scheme" where
  "unlisten h r s = settle_unlisten h r (issue (Unlisten h) s)"

section \<open>utils/encryption.ts: password validation\<close>

text \<open>
  A JavaScript string is a sequence of UTF-16 code units and \<open>.length\<close> counts them.
  The two messages are the source's literals, written as their code units.
\<close>

type_synonym js_string = "16 word list"

record validation =
  isValid :: bool
  message :: "js_string option"

definition msg_too_short :: js_string where
  "msg_too_short = [0x5BC6, 0x7801, 0x957F, 0x5EA6, 0x81F3, 0x5C11, 0x4E3A, 0x34, 0x4F4D]"

definition msg_too_long :: js_string where
  "msg_too_long =
     [0x5BC6, 0x7801, 0x957F, 0x5EA6, 0x4E0D, 0x80FD, 0x8D85, 0x8FC7, 0x35, 0x30, 0x4F4D]"

definition validatePassword :: "js_string \<Rightarrow> validation" where
  "validatePassword password =
     (if length password < 4 then \<lparr>isValid = False, message = Some msg_too_short\<rparr>
      else if length password > 50 then \<lparr>isValid = False, message = Some msg_too_long\<rparr>
      else \<lparr>isValid = True, message = None\<rparr>)"

section \<open>stores/databaseStore and hooks/useDatabaseListener.ts\<close>

text \<open>
  The Zustand store of the hook: the listening flag, the auto-refresh setting (the
  switch that decides whether the hook listens) and the \<open>UnlistenFn\<close> of the current
  registration, named by its event id. It starts as
  \<open>{isListening: false, isAutoRefreshEnabled: true, unlistenFn: null}\<close>.
\<close>

record databaseStore = env +
  isListening :: bool
  isAutoRefreshEnabled :: bool
  unlistenFn :: "nat option"

definition initial_store :: databaseStore where
  "initial_store =
     \<lparr>registered = [], next_id = 0, calls = [], console = [],
      isListening = False, isAutoRefreshEnabled = True, unlistenFn = None\<rparr>"

definition setListening :: "bool \<Rightarrow> databaseStore \<Rightarrow> databaseStore" where
  "setListening listening s = log (Log_listening_state listening) (s\<lparr>isListening := listening\<rparr>)"

definition setUnlistenFn :: "nat option \<Rightarrow> databaseStore \<Rightarrow> databaseStore" where
  "setUnlistenFn u s = s\<lparr>unlistenFn := u\<rparr>"

text \<open>
  \<open>cleanup\<close>: with no handle it does nothing. With a handle it awaits the
  \<open>UnlistenFn\<close>; the store is written inside the \<open>try\<close>, after the \<open>await\<close>, so a
  rejection skips the write and goes to the \<open>catch\<close>, which only logs. The argument
  \<open>ru\<close> is how the awaited \<open>unlistenFn()\<close> settles.
\<close>

definition cleanup :: "unit settled \<Rightarrow> databaseStore \<Rightarrow> unit settled \<times> databaseStore" where
  "cleanup ru s =
     (case unlistenFn s of
        None \<Rightarrow> (Resolved (), s)
      | Some h \<Rightarrow>
          (case unlisten h ru s of
             (Resolved _, s1) \<Rightarrow>
               (Resolved (), log Log_cleaned (s1\<lparr>isListening := False, unlistenFn := None\<rparr>))
           | (Rejected e, s1) \<Rightarrow> (Resolved (), log (Err_cleanup_failed e) s1)))"

text \<open>
  \<open>startListening\<close>: clean up the previous listener, register on the channel, store
  the handle and raise the flag; the \<open>catch\<close> logs the message and lowers the flag.
  \<open>rl\<close> is how the awaited \<open>listen(...)\<close> settles.
\<close>

definition startListening ::
  "unit settled \<Rightarrow> unit settled \<Rightarrow> databaseStore \<Rightarrow> unit settled \<times> databaseStore" where
  "startListening ru rl s =
     (case cleanup ru (log Log_starting s) of
        (Rejected e, s1) \<Rightarrow> (Resolved (), setListening False (log (Err_start_failed e) s1))
      | (Resolved _, s1) \<Rightarrow>
          (case listen rl s1 of
             (Rejected e, s2) \<Rightarrow> (Resolved (), setListening False (log (Err_start_failed e) s2))
           | (Resolved h, s2) \<Rightarrow>
               (Resolved (), log Log_started (setListening True (setUnlistenFn (Some h) s2)))))"

definition stopListening :: "unit settled \<Rightarrow> databaseStore \<Rightarrow> unit settled \<times> databaseStore" where
  "stopListening ru s =
     (case cleanup ru (log Log_stopping s) of
        (Rejected e, s1) \<Rightarrow> (Resolved (), log (Err_stop_failed e) s1)
      | (Resolved _, s1) \<Rightarrow> (Resolved (), log Log_stopped (setListening False s1)))"

text \<open>
  \<open>restartListening\<close> awaits \<open>stopListening\<close>, then \<open>startListening\<close>. \<open>ru\<close> settles the
  unregistration attempted by the stop, \<open>ru'\<close> the one attempted by the start (made only
  when the stop left a handle behind).
\<close>

definition restartListening ::
  "unit settled \<Rightarrow> unit settled \<Rightarrow> unit settled \<Rightarrow> databaseStore \<Rightarrow> unit settled \<times> databaseStore" where
  "restartListening ru ru' rl s =
     (case stopListening ru s of
        (Rejected e, s1) \<Rightarrow> (Rejected e, s1)
      | (Resolved _, s1) \<Rightarrow> startListening ru' rl s1)"

text \<open>
  The \<open>visibilitychange\<close> handler of \<open>useAutoDatabaseListener\<close>: it reads
  \<open>document.hidden\<close> and prints one of two lines. It is written over any store that
  extends the environment, since it touches none.
\<close>

definition handleVisibilityChange :: "bool \<Rightarrow> 'a env_scheme \<Rightarrow> 'a env_scheme" where
  "handleVisibilityChange hidden s = (if hidden then log Log_page_hidden s else log Log_page_shown s)"

text \<open>What the rest of the application and the backend can observe of the hook's state:
  everything but the console.\<close>

definition observable :: "databaseStore \<Rightarrow> nat option \<times> bool \<times> bool \<times> nat list \<times> ipc list" where
  "observable s = (unlistenFn s, isListening s, isAutoRefreshEnabled s, registered s, calls s)"

text \<open>The store after one successful \<open>startListening\<close> from the initial state.\<close>

definition listening_store :: databaseStore where
  "listening_store = snd (startListening (Resolved ()) (Resolved ()) initial_store)"

section \<open>Overlapping calls on the event loop\<close>

text \<open>
  The functions above run_events one call from start to end. On the event loop a call runs
  until its next \<open>await\<close> and other calls may run before it is resumed. A pending call
  is described by the \<open>await\<close> it is suspended at:
  \<^item> \<open>Start_await_unlisten h\<close>, \<open>Stop_await_unlisten h again\<close>: inside \<open>cleanup\<close>, at
    \<open>await unlistenFn()\<close>, for the handle \<open>h\<close> that \<open>cleanup\<close> read from the store when
    it was entered;
  \<^item> \<open>Start_after_cleanup\<close>, \<open>Stop_after_cleanup again\<close>: at \<open>await cleanup()\<close>, once
    \<open>cleanup\<close> has returned;
  \<^item> \<open>Start_await_listen\<close>: at \<open>await listen(...)\<close>;
  \<^item> \<open>Restart_after_stop\<close>: in \<open>restartListening\<close>, at \<open>await stopListening()\<close>.
  The flag \<open>again\<close> marks a stop that is the first half of \<open>restartListening\<close>. The
  backend's part of a call takes effect when the awaited promise settles.
\<close>

datatype request = Start | Stop | Restart

datatype pc =
    Start_await_unlisten nat
  | Start_after_cleanup
  | Start_await_listen
  | Stop_await_unlisten nat bool
  | Stop_after_cleanup bool
  | Restart_after_stop
  | Finished

text \<open>What \<open>cleanup\<close> does after \<open>await unlistenFn()\<close> has settled. The store is written
  with \<open>{unlistenFn: null, isListening: false}\<close> whatever it holds by then.\<close>

definition cleanup_settle :: "nat \<Rightarrow> unit settled \<Rightarrow> databaseStore \<Rightarrow> databaseStore" where
  "cleanup_settle h ru s =
     (case settle_unlisten h ru s of
        (Resolved _, s1) \<Rightarrow> log Log_cleaned (s1\<lparr>isListening := False, unlistenFn := None\<rparr>)
      | (Rejected e, s1) \<Rightarrow> log (Err_cleanup_failed e) s1)"

text \<open>The synchronous prefix of \<open>startListening\<close> and of \<open>stopListening\<close>: the first log
  line, then \<open>cleanup\<close> up to its \<open>await\<close>.\<close>

definition start_begin :: "databaseStore \<Rightarrow> pc \<times> databaseStore" where
  "start_begin s =
     (case unlistenFn s of
        None \<Rightarrow> (Start_after_cleanup, log Log_starting s)
      | Some h \<Rightarrow> (Start_await_unlisten h, issue (Unlisten h) (log Log_starting s)))"

definition stop_begin :: "bool \<Rightarrow> databaseStore \<Rightarrow> pc \<times> databaseStore" where
  "stop_begin again s =
     (case unlistenFn s of
        None \<Rightarrow> (Stop_after_cleanup again, log Log_stopping s)
      | Some h \<Rightarrow> (Stop_await_unlisten h again, issue (Unlisten h) (log Log_stopping s)))"

fun call_request :: "request \<Rightarrow> databaseStore \<Rightarrow> pc \<times> databaseStore" where
  "call_request Start s = start_begin s"
| "call_request Stop s = stop_begin False s"
| "call_request Restart s = stop_begin True s"

text \<open>Resuming a pending call with the outcome \<open>r\<close> of the promise it awaits (ignored
  where the promise awaited is one of the application's own, which never reject).\<close>

fun resume :: "pc \<Rightarrow> unit settled \<Rightarrow> databaseStore \<Rightarrow> pc \<times> databaseStore" where
  "resume (Start_await_unlisten h) r s = (Start_after_cleanup, cleanup_settle h r s)"
| "resume Start_after_cleanup r s = (Start_await_listen, issue Listen s)"
| "resume Start_await_listen r s =
     (Finished,
      case settle_listen r s of
        (Rejected e, s1) \<Rightarrow> setListening False (log (Err_start_failed e) s1)
      | (Resolved h, s1) \<Rightarrow> log Log_started (setListening True (setUnlistenFn (Some h) s1)))"
| "resume (Stop_await_unlisten h again) r s = (Stop_after_cleanup again, cleanup_settle h r s)"
| "resume (Stop_after_cleanup again) r s =
     (if again then Restart_after_stop else Finished, log Log_stopped (setListening False s))"
| "resume Restart_after_stop r s = start_begin s"
| "resume Finished r s = (Finished, s)"

text \<open>
  The system is the list of calls made so far, each with the point it is at, and the
  store. An event either makes a new call, which runs to its first \<open>await\<close>, or resumes
  the call with a given index.
\<close>

datatype event = Call request | Resume nat "unit settled"

fun step :: "event \<Rightarrow> pc list \<times> databaseStore \<Rightarrow> pc list \<times> databaseStore" where
  "step (Call c) (ts, s) = (case call_request c s of (p, s') \<Rightarrow> (ts @ [p], s'))"
| "step (Resume i r) (ts, s) =
     (if i < length ts then (case resume (ts ! i) r s of (p, s') \<Rightarrow> (ts[i := p], s'))
      else (ts, s))"

fun run_events :: "event list \<Rightarrow> pc list \<times> databaseStore \<Rightarrow> pc list \<times> databaseStore" where
  "run_events [] \<sigma> = \<sigma>"
| "run_events (e # es) \<sigma> = run_events es (step e \<sigma>)"

text \<open>
  A schedule is sequential when every call is made after all earlier calls have
  finished, and every unregistration awaited by a start resolves.
\<close>

fun admissible :: "event \<Rightarrow> pc list \<times> databaseStore \<Rightarrow> bool" where
  "admissible (Call c) (ts, s) = list_all (\<lambda>p. p = Finished) ts"
| "admissible (Resume i r) (ts, s) =
     (if i < length ts
      then (case ts ! i of Start_await_unlisten h \<Rightarrow> r = Resolved () | _ \<Rightarrow> True)
      else True)"

fun sequential :: "event list \<Rightarrow> pc list \<times> databaseStore \<Rightarrow> bool" where
  "sequential [] \<sigma> = True"
| "sequential (e # es) \<sigma> = (admissible e \<sigma> \<and> sequential es (step e \<sigma>))"

text \<open>The registrations the store holds a handle for: none or one.\<close>

definition held :: "databaseStore \<Rightarrow> nat list" where
  "held s = (case unlistenFn s of None \<Rightarrow> [] | Some h \<Rightarrow> [h])"

text \<open>The invariant of sequential schedules: the live registrations are exactly the held
  ones, only the last call can be pending, and the handle a pending call remembers is
  the one in the store.\<close>

definition pc_ok :: "pc \<Rightarrow> databaseStore \<Rightarrow> bool" where
  "pc_ok p s =
     (case p of
        Start_await_unlisten h \<Rightarrow> unlistenFn s = Some h
      | Stop_await_unlisten h b \<Rightarrow> unlistenFn s = Some h
      | Start_after_cleanup \<Rightarrow> unlistenFn s = None
      | Start_await_listen \<Rightarrow> unlistenFn s = None
      | _ \<Rightarrow> True)"

definition consistent :: "pc list \<times> databaseStore \<Rightarrow> bool" where
  "consistent \<sigma> = (case \<sigma> of (ts, s) \<Rightarrow>
     registered s = held s \<and>
     (\<forall>i < length ts. ts ! i \<noteq> Finished \<longrightarrow> Suc i = length ts \<and> pc_ok (ts ! i) s))"

text \<open>Example schedules. In \<open>overlapping_starts\<close> the second \<open>startListening\<close> is called
  while the first is suspended at \<open>await listen(...)\<close>; every backend call resolves. In
  \<open>failed_unlisten_in_start\<close> the calls do not overlap, and the unregistration attempted
  by the second start is rejected. \<open>start_stop_restart\<close> is sequential.\<close>

definition resolves :: "unit settled" where
  "resolves = Resolved ()"

definition overlapping_starts :: "event list" where
  "overlapping_starts =
     [Call Start, Resume 0 resolves, Call Start, Resume 1 resolves,
      Resume 0 resolves, Resume 1 resolves]"

definition failed_unlisten_in_start :: "event list" where
  "failed_unlisten_in_start =
     [Call Start, Resume 0 resolves, Resume 0 resolves,
      Call Start, Resume 1 (Rejected ''unlisten failed''), Resume 1 resolves, Resume 1 resolves]"

definition start_stop_restart :: "event list" where
  "start_stop_restart =
     [Call Start, Resume 0 resolves, Resume 0 resolves,
      Call Stop, Resume 1 (Rejected ''unlisten failed''), Resume 1 resolves,
      Call Restart, Resume 2 resolves, Resume 2 resolves, Resume 2 resolves, Resume 2 resolves,
      Resume 2 resolves,
      Call Start, Resume 3 resolves, Resume 3 resolves, Resume 3 resolves]"

section \<open>The monitoring store (useDbMonitoringStore)\<close>

text \<open>
  The second implementation keeps the setting \<open>dbMonitoringEnabled\<close> in a Zustand store
  (initially \<open>true\<close>) and the handle in the module variable \<open>globalUnlistenFn\<close>
  (initially \<open>null\<close>).
\<close>

record dbMonitoringStore = env +
  dbMonitoringEnabled :: bool
  globalUnlistenFn :: "nat option"

definition initial_monitoring :: dbMonitoringStore where
  "initial_monitoring =
     \<lparr>registered = [], next_id = 0, calls = [], console = [],
      dbMonitoringEnabled = True, globalUnlistenFn = None\<rparr>"

text \<open>
  \<open>loadSettings\<close> and \<open>setDbMonitoringEnabled\<close> call \<open>startListening\<close> and
  \<open>stopListening\<close> without awaiting them: the callee runs up to its first \<open>await\<close>,
  the caller goes on, and the callee's remainder runs afterwards. Each of these
  functions is therefore written in two parts, the synchronous prefix (\<open>_sync\<close>, which
  returns the handle whose \<open>UnlistenFn\<close> it is waiting for, if any) and the remainder
  (\<open>_rest\<close>); the awaited form is the two in sequence.
\<close>

definition cleanup_sync :: "dbMonitoringStore \<Rightarrow> nat option \<times> dbMonitoringStore" where
  "cleanup_sync s =
     (case globalUnlistenFn s of
        None \<Rightarrow> (None, s)
      | Some h \<Rightarrow> (Some h, issue (Unlisten h) s))"

definition cleanup_rest ::
  "nat option \<Rightarrow> unit settled \<Rightarrow> dbMonitoringStore \<Rightarrow> unit settled \<times> dbMonitoringStore" where
  "cleanup_rest p ru s =
     (case p of
        None \<Rightarrow> (Resolved (), s)
      | Some h \<Rightarrow>
          (case settle_unlisten h ru s of
             (Resolved _, s1) \<Rightarrow> (Resolved (), log Log_cleaned (s1\<lparr>globalUnlistenFn := None\<rparr>))
           | (Rejected e, s1) \<Rightarrow> (Resolved (), log (Err_cleanup_failed e) s1)))"

definition monitoring_cleanup ::
  "unit settled \<Rightarrow> dbMonitoringStore \<Rightarrow> unit settled \<times> dbMonitoringStore" where
  "monitoring_cleanup ru s = (case cleanup_sync s of (p, s1) \<Rightarrow> cleanup_rest p ru s1)"

definition stopListening_sync :: "dbMonitoringStore \<Rightarrow> nat option \<times> dbMonitoringStore" where
  "stopListening_sync s = cleanup_sync (log Log_stopping s)"

definition stopListening_rest ::
  "nat option \<Rightarrow> unit settled \<Rightarrow> dbMonitoringStore \<Rightarrow> unit settled \<times> dbMonitoringStore" where
  "stopListening_rest p ru s =
     (case cleanup_rest p ru s of
        (Rejected e, s1) \<Rightarrow> (Resolved (), log (Err_stop_failed e) s1)
      | (Resolved _, s1) \<Rightarrow> (Resolved (), log Log_stopped s1))"

definition monitoring_stopListening ::
  "unit settled \<Rightarrow> dbMonitoringStore \<Rightarrow> unit settled \<times> dbMonitoringStore" where
  "monitoring_stopListening ru s = (case stopListening_sync s of (p, s1) \<Rightarrow> stopListening_rest p ru s1)"

definition startListening_sync :: "dbMonitoringStore \<Rightarrow> nat option \<times> dbMonitoringStore" where
  "startListening_sync s = cleanup_sync (log Log_starting s)"

text \<open>After \<open>listen\<close> resolves the handle is stored, \<open>start_database_monitoring\<close> is
  invoked without being awaited (only the call is issued), and the success line is
  printed.\<close>

definition startListening_rest ::
  "nat option \<Rightarrow> unit settled \<Rightarrow> unit settled \<Rightarrow> dbMonitoringStore \<Rightarrow>
   unit settled \<times> dbMonitoringStore" where
  "startListening_rest p ru rl s =
     (case cleanup_rest p ru s of
        (Rejected e, s1) \<Rightarrow> (Resolved (), log (Err_start_failed e) s1)
      | (Resolved _, s1) \<Rightarrow>
          (case listen rl s1 of
             (Rejected e, s2) \<Rightarrow> (Resolved (), log (Err_start_failed e) s2)
           | (Resolved h, s2) \<Rightarrow>
               (Resolved (),
                log Log_started
                  (issue (Invoke Start_database_monitoring) (s2\<lparr>globalUnlistenFn := Some h\<rparr>)))))"

definition monitoring_startListening ::
  "unit settled \<Rightarrow> unit settled \<Rightarrow> dbMonitoringStore \<Rightarrow> unit settled \<times> dbMonitoringStore" where
  "monitoring_startListening ru rl s =
     (case startListening_sync s of (p, s1) \<Rightarrow> startListening_rest p ru rl s1)"

text \<open>
  \<open>loadSettings\<close> is declared \<open>Promise<boolean>\<close>. \<open>ri\<close> is how
  \<open>invoke('is_db_monitoring_enabled')\<close> settles. The \<open>try\<close> block ends in \<open>return
  dbMonitoringEnabled\<close>; the \<open>catch\<close> block logs, writes the default \<open>true\<close> to the
  store and has no \<open>return\<close>, so the promise resolves to \<open>undefined\<close>: the result is
  \<open>Resolved None\<close> there and \<open>Resolved (Some v)\<close> on the first path.
\<close>

definition loadSettings ::
  "bool settled \<Rightarrow> unit settled \<Rightarrow> unit settled \<Rightarrow> dbMonitoringStore \<Rightarrow>
   bool option settled \<times> dbMonitoringStore" where
  "loadSettings ri ru rl s =
     (case ri of
        Resolved v \<Rightarrow>
          (let s1 = (issue (Invoke Is_db_monitoring_enabled) s)\<lparr>dbMonitoringEnabled := v\<rparr> in
           if v then
             (case startListening_sync s1 of
                (p, s2) \<Rightarrow>
                  (Resolved (Some v),
                   snd (startListening_rest p ru rl (log (Log_settings_synced v) s2))))
           else (Resolved (Some v), log (Log_settings_synced v) s1))
      | Rejected e \<Rightarrow>
          (Resolved None,
           (log (Err_load_failed e) (issue (Invoke Is_db_monitoring_enabled) s))
             \<lparr>dbMonitoringEnabled := True\<rparr>))"

text \<open>
  \<open>setDbMonitoringEnabled\<close>: \<open>ri\<close> is how \<open>invoke('set_db_monitoring_enabled')\<close>
  settles. On rejection the \<open>catch\<close> logs and rethrows. On success, turning the
  setting off calls \<open>stopListening\<close> (not awaited) before the store is written; turning
  it on starts nothing here.
\<close>

definition setDbMonitoringEnabled ::
  "bool \<Rightarrow> unit settled \<Rightarrow> unit settled \<Rightarrow> dbMonitoringStore \<Rightarrow>
   unit settled \<times> dbMonitoringStore" where
  "setDbMonitoringEnabled enabled ri ru s =
     (case ri of
        Rejected e \<Rightarrow>
          (Rejected e, log (Err_set_failed e) (issue (Invoke (Set_db_monitoring_enabled enabled)) s))
      | Resolved _ \<Rightarrow>
          (let s1 = issue (Invoke (Set_db_monitoring_enabled enabled)) s in
           if \<not> enabled then
             (case stopListening_sync s1 of
                (p, s2) \<Rightarrow>
                  (Resolved (),
                   snd (stopListening_rest p ru
                          (log (Log_settings_updated enabled) (s2\<lparr>dbMonitoringEnabled := enabled\<rparr>)))))
           else (Resolved (), log (Log_settings_updated enabled) (s1\<lparr>dbMonitoringEnabled := enabled\<rparr>))))"

definition toggleDbMonitoring ::
  "unit settled \<Rightarrow> unit settled \<Rightarrow> dbMonitoringStore \<Rightarrow> unit settled \<times> dbMonitoringStore" where
  "toggleDbMonitoring ri ru s = setDbMonitoringEnabled (\<not> dbMonitoringEnabled s) ri ru s"

section \<open>The settings dialog (BusinessSettingsDialog)\<close>

text \<open>
  The dialog keeps its own copy of the setting in component state, next to the message
  it shows. \<open>loadCurrentSettings\<close> reads the flag and falls back to \<open>true\<close>;
  \<open>handleDbMonitoringToggle\<close> saves the flag and, when the save is rejected, shows the
  error and leaves the flag alone. Neither returns a value and neither touches a
  listener. The message is one of the three texts the two functions can leave behind;
  the timer that blanks a success message three seconds later is not modelled.
\<close>

datatype message_type = Success | Error | Warning | Info

datatype dialog_message = Blank | Backend_result string | Setting_failed error

record settings_dialog =
  isDbMonitoringEnabled :: bool
  isSettingsLoading :: bool
  dialog_message :: dialog_message
  dialog_messageType :: message_type

definition loadCurrentSettings :: "bool settled \<Rightarrow> settings_dialog \<Rightarrow> settings_dialog" where
  "loadCurrentSettings ri d =
     (case ri of
        Resolved v \<Rightarrow> d\<lparr>isDbMonitoringEnabled := v, isSettingsLoading := False\<rparr>
      | Rejected e \<Rightarrow> d\<lparr>isDbMonitoringEnabled := True, isSettingsLoading := False\<rparr>)"

definition handleDbMonitoringToggle ::
  "bool \<Rightarrow> string settled \<Rightarrow> settings_dialog \<Rightarrow> settings_dialog" where
  "handleDbMonitoringToggle enabled ri d =
     (case ri of
        Resolved result \<Rightarrow>
          d\<lparr>isDbMonitoringEnabled := enabled, dialog_message := Backend_result result,
            dialog_messageType := Success\<rparr>
      | Rejected e \<Rightarrow> d\<lparr>dialog_message := Setting_failed e, dialog_messageType := Error\<rparr>)"

text \<open>\<open>startListening\<close> and \<open>stopListening\<close> print their first line before anything
  else, so the console tells how often each has been called.\<close>

definition invocations :: "'a env_scheme \<Rightarrow> log_entry list" where
  "invocations s = filter (\<lambda>l. l = Log_starting \<or> l = Log_stopping) (console s)"

section \<open>The event emitter and the fan-out\<close>

text \<open>
  \<open>databaseEventEmitter\<close> is an \<open>EventEmitter\<close> of the \<open>events\<close> package, a library
  outside the repository. Its documented behaviour is what the store relies on:
  \<^item> \<open>on(event, listener)\<close> appends the listener to the event's array, without looking
    for duplicates;
  \<^item> \<open>off(event, listener)\<close> searches the array from the end and removes the first match
    it meets, that is, the most recently added instance; it does nothing when there is
    none;
  \<^item> \<open>emit(event, arg)\<close> returns \<open>false\<close> when the array is empty; otherwise it calls a
    copy of the array in order, with no \<open>try\<close> around the calls, and returns \<open>true\<close>: a
    listener that throws ends the loop and the exception leaves \<open>emit\<close>.
  A listener is identified by its function object (\<open>'l\<close>); \<open>DatabaseEventMap\<close> has the
  single key \<open>DATA_CHANGED\<close>. For the synchronous \<open>emit\<close>, \<open>Resolved v\<close> stands for
  returning \<open>v\<close> and \<open>Rejected e\<close> for throwing \<open>e\<close>.
\<close>

datatype event_name = DATA_CHANGED

type_synonym 'l emitter = "event_name \<Rightarrow> 'l list"

definition new_emitter :: "'l emitter" where
  "new_emitter = (\<lambda>ev. [])"

definition emitter_on :: "event_name \<Rightarrow> 'l \<Rightarrow> 'l emitter \<Rightarrow> 'l emitter" where
  "emitter_on ev l em = em(ev := em ev @ [l])"

definition emitter_off :: "event_name \<Rightarrow> 'l \<Rightarrow> 'l emitter \<Rightarrow> 'l emitter" where
  "emitter_off ev l em = em(ev := rev (remove1 l (rev (em ev))))"

text \<open>
  \<open>call_all\<close> is the loop of \<open>emit\<close>. \<open>run l n\<close> is what listener \<open>l\<close> does with the
  argument \<open>n\<close>: \<open>None\<close> when it returns, \<open>Some e\<close> when it throws \<open>e\<close>. The result lists
  the listeners that were called, in call order, and the exception that ended the loop,
  if any.
\<close>

fun call_all :: "('l \<Rightarrow> 'n \<Rightarrow> error option) \<Rightarrow> 'n \<Rightarrow> 'l list \<Rightarrow> 'l list \<times> error option" where
  "call_all run n [] = ([], None)"
| "call_all run n (l # ls) =
     (case run l n of
        Some e \<Rightarrow> ([l], Some e)
      | None \<Rightarrow> (case call_all run n ls of (called, r) \<Rightarrow> (l # called, r)))"

definition emitter_emit ::
  "('l \<Rightarrow> 'n \<Rightarrow> error option) \<Rightarrow> event_name \<Rightarrow> 'n \<Rightarrow> 'l emitter \<Rightarrow> 'l list \<times> bool settled" where
  "emitter_emit run ev n em =
     (if em ev = [] then ([], Resolved False)
      else (case call_all run n (em ev) of
              (called, Some e) \<Rightarrow> (called, Rejected e)
            | (called, None) \<Rightarrow> (called, Resolved True)))"

text \<open>
  \<open>addListener\<close> registers the listener and returns a closure over the event and the
  listener; calling the closure (\<open>unsubscribe\<close>) is \<open>off(event, listener)\<close>. The handle
  is modelled by the pair the closure captures.
\<close>

definition addListener ::
  "event_name \<Rightarrow> 'l \<Rightarrow> 'l emitter \<Rightarrow> (event_name \<times> 'l) \<times> 'l emitter" where
  "addListener ev l em = ((ev, l), emitter_on ev l em)"

definition unsubscribe :: "event_name \<times> 'l \<Rightarrow> 'l emitter \<Rightarrow> 'l emitter" where
  "unsubscribe h em = emitter_off (fst h) (snd h) em"

text \<open>
  The channel handler of the monitoring store. The backend event carries
  \<open>{newData, oldData, diff}\<close>; the handler logs, and emits \<open>DATA_CHANGED\<close> with those
  fields, the current time and the original event. It is an \<open>async\<close> function, so an
  exception leaving \<open>emit\<close> rejects its promise and the last log line is not printed.
\<close>

record diff_summary =
  hasChanges :: bool
  changedFields :: "string list"
  summary :: string

record 'd change_payload =
  newData :: 'd
  oldData :: 'd
  diff :: "diff_summary option"

record 'd change_event = "'d change_payload" +
  timestamp :: nat
  originalEvent :: "'d change_payload"

definition notification :: "nat \<Rightarrow> 'd change_payload \<Rightarrow> 'd change_event" where
  "notification now event =
     \<lparr>newData = newData event, oldData = oldData event, diff = diff event,
      timestamp = now, originalEvent = event\<rparr>"

definition handleDatabaseChange ::
  "('l \<Rightarrow> 'd change_event \<Rightarrow> error option) \<Rightarrow> nat \<Rightarrow> 'd change_payload \<Rightarrow> 'l emitter \<Rightarrow>
   'a env_scheme \<Rightarrow> ('l list \<times> unit settled) \<times> 'a env_scheme" where
  "handleDatabaseChange run now event em s =
     (let s1 = log Log_event_received s;
          s2 = (if diff event \<noteq> None then log Log_diff_summary s1 else s1);
          s3 = log Log_trigger_update s2
      in case emitter_emit run DATA_CHANGED (notification now event) em of
           (called, Rejected e) \<Rightarrow> ((called, Rejected e), s3)
         | (called, Resolved _) \<Rightarrow> ((called, Resolved ()), log Log_event_emitted s3))"

text \<open>Consumers used as examples: two different callbacks, the same callback registered
  twice, a callback that throws, and an event without a diff.\<close>

definition two_consumers :: "nat emitter" where
  "two_consumers = snd (addListener DATA_CHANGED 1 (snd (addListener DATA_CHANGED 0 new_emitter)))"

definition same_callback_twice :: "nat emitter" where
  "same_callback_twice =
     snd (addListener DATA_CHANGED 7 (snd (addListener DATA_CHANGED 7 new_emitter)))"

definition first_throws :: "nat \<Rightarrow> unit change_event \<Rightarrow> error option" where
  "first_throws l n = (if l = 0 then Some ''boom'' else None)"

definition none_throws :: "nat \<Rightarrow> unit change_event \<Rightarrow> error option" where
  "none_throws l n = None"

definition sample_event :: "unit change_payload" where
  "sample_event = \<lparr>newData = (), oldData = (), diff = None\<rparr>"


section \<open>Facts used throughout\<close>

lemmas env_simps = log_def issue_def settle_listen_def settle_unlisten_def listen_def unlisten_def

lemmas hook_simps = setListening_def setUnlistenFn_def cleanup_def startListening_def
  stopListening_def restartListening_def

lemmas monitoring_simps = monitoring_cleanup_def cleanup_sync_def cleanup_rest_def
  stopListening_sync_def stopListening_rest_def monitoring_stopListening_def
  startListening_sync_def startListening_rest_def monitoring_startListening_def

lemmas machine_simps = start_begin_def stop_begin_def cleanup_settle_def resolves_def

lemma listening_store_eq:
  "listening_store =
     \<lparr>registered = [0], next_id = 1, calls = [Listen],
      console = [Log_starting, Log_listening_state True, Log_started],
      isListening = True, isAutoRefreshEnabled = True, unlistenFn = Some 0\<rparr>"
  by (simp add: listening_store_def initial_store_def hook_simps env_simps)

lemma two_consumers_eq: "two_consumers DATA_CHANGED = [0, 1]"
  by (simp add: two_consumers_def addListener_def emitter_on_def new_emitter_def)

lemma same_callback_twice_eq: "same_callback_twice DATA_CHANGED = [7, 7]"
  by (simp add: same_callback_twice_def addListener_def emitter_on_def new_emitter_def)

text \<open>The application's own asynchronous functions never reject: each has a \<open>catch\<close>
  that logs.\<close>

lemma lifecycle_never_rejects:
  "fst (cleanup ru s) = Resolved ()"
  "fst (stopListening ru s) = Resolved ()"
  "fst (startListening ru rl s) = Resolved ()"
  "fst (restartListening ru ru' rl s) = Resolved ()"
  by (cases ru; cases ru'; cases rl; cases "unlistenFn s";
      simp add: hook_simps env_simps)+

section \<open>The machine agrees with the functions\<close>

text \<open>Running one call alone, from the call to its last resumption, gives the store
  that the corresponding function computes.\<close>

lemma machine_start_no_handle:
  "unlistenFn s = None \<Longrightarrow>
   run_events [Call Start, Resume (length ts) r, Resume (length ts) rl] (ts, s) =
     (ts @ [Finished], snd (startListening ru rl s))"
  by (cases rl) (simp_all add: machine_simps hook_simps env_simps)

lemma machine_start_handle:
  "unlistenFn s = Some h \<Longrightarrow>
   run_events [Call Start, Resume (length ts) ru, Resume (length ts) r, Resume (length ts) rl]
     (ts, s) =
     (ts @ [Finished], snd (startListening ru rl s))"
  by (cases rl; cases ru) (simp_all add: machine_simps hook_simps env_simps)

lemma machine_stop_no_handle:
  "unlistenFn s = None \<Longrightarrow>
   run_events [Call Stop, Resume (length ts) r] (ts, s) =
     (ts @ [Finished], snd (stopListening ru s))"
  by (simp add: machine_simps hook_simps env_simps)

lemma machine_stop_handle:
  "unlistenFn s = Some h \<Longrightarrow>
   run_events [Call Stop, Resume (length ts) ru, Resume (length ts) r] (ts, s) =
     (ts @ [Finished], snd (stopListening ru s))"
  by (cases ru) (simp_all add: machine_simps hook_simps env_simps)

lemma machine_restart_handle:
  "unlistenFn s = Some h \<Longrightarrow>
   run_events [Call Restart, Resume (length ts) (Resolved ()), Resume (length ts) r,
        Resume (length ts) r', Resume (length ts) r'', Resume (length ts) rl] (ts, s) =
     (ts @ [Finished], snd (restartListening (Resolved ()) ru' rl s))"
  by (cases rl) (simp_all add: machine_simps hook_simps env_simps)

section \<open>At most one registration\<close>

lemma call_request_ok:
  "registered s = held s \<Longrightarrow> call_request c s = (p, s') \<Longrightarrow>
   registered s' = held s' \<and> pc_ok p s'"
  by (cases c; cases "unlistenFn s")
     (auto simp: start_begin_def stop_begin_def held_def pc_ok_def env_simps)

lemma resume_ok:
  "registered s = held s \<Longrightarrow> pc_ok p s \<Longrightarrow>
   (\<forall>h. p = Start_await_unlisten h \<longrightarrow> r = Resolved ()) \<Longrightarrow>
   resume p r s = (p', s') \<Longrightarrow> registered s' = held s' \<and> pc_ok p' s'"
  by (cases p; cases r; cases "unlistenFn s")
     (auto simp: start_begin_def cleanup_settle_def held_def pc_ok_def env_simps
         setListening_def setUnlistenFn_def split: if_splits)

lemma consistent_step:
  assumes "consistent \<sigma>" and "admissible e \<sigma>"
  shows "consistent (step e \<sigma>)"
proof -
  obtain ts s where \<sigma>: "\<sigma> = (ts, s)" by (cases \<sigma>)
  from assms \<sigma> have reg: "registered s = held s"
    and tasks: "\<And>i. i < length ts \<Longrightarrow> ts ! i \<noteq> Finished \<Longrightarrow> Suc i = length ts \<and> pc_ok (ts ! i) s"
    by (auto simp: consistent_def)
  show ?thesis
  proof (cases e)
    case (Call c)
    obtain p s' where c: "call_request c s = (p, s')" by (cases "call_request c s")
    from call_request_ok [OF reg c] have reg': "registered s' = held s'" and ok: "pc_ok p s'"
      by simp_all
    from assms Call \<sigma> have fin: "\<And>i. i < length ts \<Longrightarrow> ts ! i = Finished"
      by (auto simp: list_all_length)
    show ?thesis
      using reg' ok fin by (auto simp: consistent_def \<sigma> Call c nth_append)
  next
    case (Resume i r)
    show ?thesis
    proof (cases "i < length ts")
      case False
      with assms show ?thesis by (simp add: \<sigma> Resume)
    next
      case True
      note i = this
      obtain p s' where c: "resume (ts ! i) r s = (p, s')" by (cases "resume (ts ! i) r s")
      show ?thesis
      proof (cases "ts ! i = Finished")
        case True
        with c have "p = Finished" "s' = s" by simp_all
        with True have "ts[i := p] = ts" by (metis list_update_id)
        with assms \<open>s' = s\<close> show ?thesis by (simp add: \<sigma> Resume i c)
      next
        case False
        from tasks [OF i False] have last: "Suc i = length ts" and ok: "pc_ok (ts ! i) s"
          by simp_all
        from assms i have adm: "\<forall>h. ts ! i = Start_await_unlisten h \<longrightarrow> r = Resolved ()"
          by (auto simp: \<sigma> Resume)
        from resume_ok [OF reg ok adm c] have reg': "registered s' = held s'" and ok': "pc_ok p s'"
          by simp_all
        have others: "ts ! j = Finished" if "j < length ts" "j \<noteq> i" for j
          using tasks [OF that(1)] that(2) last by auto
        have "consistent (ts[i := p], s')"
          unfolding consistent_def using reg' ok' others last
          by (auto simp: nth_list_update)
        then show ?thesis by (simp add: \<sigma> Resume i c)
      qed
    qed
  qed
qed

lemma consistent_run:
  "consistent \<sigma> \<Longrightarrow> sequential es \<sigma> \<Longrightarrow> consistent (run_events es \<sigma>)"
proof (induction es arbitrary: \<sigma>)
  case Nil
  then show ?case by simp
next
  case (Cons e es)
  from Cons.prems have "consistent (step e \<sigma>)" by (simp add: consistent_step)
  with Cons show ?case by simp
qed

lemma sequential_take: "sequential es \<sigma> \<Longrightarrow> sequential (take k es) \<sigma>"
  by (induction es arbitrary: \<sigma> k) (auto simp: take_Cons split: nat.splits)

lemma consistent_initial: "consistent ([], initial_store)"
  by (simp add: consistent_def initial_store_def held_def)

text \<open>
  C1 (as amended). From the initial store, along every schedule of \<open>startListening\<close>,
  \<open>stopListening\<close> and \<open>restartListening\<close> calls that do not overlap and in which every
  unregistration awaited by a start resolves, after every step the live registrations
  are exactly the one the store holds a handle for, if any: there is at most one.
\<close>

theorem sequential_at_most_one:
  assumes "sequential es ([], initial_store)"
  shows "\<forall>k \<le> length es.
           registered (snd (run_events (take k es) ([], initial_store))) =
             held (snd (run_events (take k es) ([], initial_store))) \<and>
           length (registered (snd (run_events (take k es) ([], initial_store)))) \<le> 1"
proof (intro allI impI)
  fix k
  have "consistent (run_events (take k es) ([], initial_store))"
    using consistent_initial sequential_take [OF assms] by (rule consistent_run)
  then have "registered (snd (run_events (take k es) ([], initial_store))) =
             held (snd (run_events (take k es) ([], initial_store)))"
    by (simp add: consistent_def split: prod.splits)
  then show "registered (snd (run_events (take k es) ([], initial_store))) =
             held (snd (run_events (take k es) ([], initial_store))) \<and>
           length (registered (snd (run_events (take k es) ([], initial_store)))) \<le> 1"
    by (simp add: held_def split: option.splits)
qed

theorem sequential_at_most_one_witness:
  "sequential start_stop_restart ([], initial_store) \<and>
   registered (snd (run_events (take 16 start_stop_restart) ([], initial_store))) = [2] \<and>
   held (snd (run_events (take 16 start_stop_restart) ([], initial_store))) = [2] \<and>
   registered (snd (run_events (take 6 start_stop_restart) ([], initial_store))) = [0]"
proof -
  have s: "sequential start_stop_restart ([], initial_store)"
    by (simp add: start_stop_restart_def initial_store_def machine_simps hook_simps env_simps)
  have l: "length start_stop_restart = 16" by (simp add: start_stop_restart_def)
  from sequential_at_most_one [OF s, THEN spec, of 16] l
  have "registered (snd (run_events (take 16 start_stop_restart) ([], initial_store))) =
        held (snd (run_events (take 16 start_stop_restart) ([], initial_store)))"
    by simp
  moreover have "held (snd (run_events (take 16 start_stop_restart) ([], initial_store))) = [2]"
    by (simp add: start_stop_restart_def initial_store_def machine_simps hook_simps env_simps
          held_def)
  moreover have "registered (snd (run_events (take 6 start_stop_restart) ([], initial_store))) = [0]"
    by (simp add: start_stop_restart_def initial_store_def machine_simps hook_simps env_simps)
  ultimately show ?thesis using s by simp
qed

text \<open>
  As stated, for overlapping calls too, the property fails: two starts that overlap end
  with the registrations 0 and 1 both live and only the handle of 1 in the store; so
  do two starts in sequence when the unregistration awaited by the second is rejected.
\<close>

theorem two_registrations_counterexample:
  "registered (snd (run_events overlapping_starts ([], initial_store))) = [0, 1] \<and>
   fst (run_events overlapping_starts ([], initial_store)) = [Finished, Finished] \<and>
   unlistenFn (snd (run_events overlapping_starts ([], initial_store))) = Some 1 \<and>
   registered (snd (run_events failed_unlisten_in_start ([], initial_store))) = [0, 1] \<and>
   fst (run_events failed_unlisten_in_start ([], initial_store)) = [Finished, Finished]"
  by (simp add: overlapping_starts_def failed_unlisten_in_start_def initial_store_def
        machine_simps hook_simps env_simps)

section \<open>Fan-out\<close>

lemma call_all_eq:
  "call_all run n ls =
     (takeWhile (\<lambda>l. run l n = None) ls @ take 1 (dropWhile (\<lambda>l. run l n = None) ls),
      (case dropWhile (\<lambda>l. run l n = None) ls of [] \<Rightarrow> None | l # _ \<Rightarrow> run l n))"
  by (induction ls) (auto split: option.splits)

lemma call_all_no_throw:
  "\<forall>l \<in> set ls. run l n = None \<Longrightarrow> call_all run n ls = (ls, None)"
  by (induction ls) auto

lemma registering_in_order:
  "snd (fold (\<lambda>l hs_em. addListener ev l (snd hs_em)) ls (h0, em)) ev = em ev @ ls"
  by (induction ls arbitrary: h0 em) (simp_all add: addListener_def emitter_on_def)

lemma handleDatabaseChange_eq:
  "fst (handleDatabaseChange run now event em s) =
     (fst (call_all run (notification now event) (em DATA_CHANGED)),
      (case snd (call_all run (notification now event) (em DATA_CHANGED)) of
         None \<Rightarrow> Resolved () | Some e \<Rightarrow> Rejected e))"
  by (simp add: handleDatabaseChange_def emitter_emit_def Let_def
           split: prod.splits option.splits settled.splits)

text \<open>
  C2 (as amended). Publishing one notification calls the registered callbacks once
  each, in registration order, up to and including the first one that throws; the
  callbacks after it are not called, the exception leaves the publisher (the handler
  rejects with that error) and the closing log line is not printed. When no callback
  throws, all of them are called and the publisher completes. The publisher rejects
  only with an error thrown by a registered callback.
\<close>

theorem publish_until_first_throw:
  "fst (fst (handleDatabaseChange run now event em s)) =
     takeWhile (\<lambda>l. run l (notification now event) = None) (em DATA_CHANGED) @
     take 1 (dropWhile (\<lambda>l. run l (notification now event) = None) (em DATA_CHANGED)) \<and>
   ((\<forall>l \<in> set (em DATA_CHANGED). run l (notification now event) = None) \<longrightarrow>
      handleDatabaseChange run now event em s =
        ((em DATA_CHANGED, Resolved ()),
         log Log_event_emitted (log Log_trigger_update
           (if diff event \<noteq> None then log Log_diff_summary (log Log_event_received s)
            else log Log_event_received s)))) \<and>
   (\<forall>pre l post e.
      em DATA_CHANGED = pre @ l # post \<and>
      (\<forall>x \<in> set pre. run x (notification now event) = None) \<and>
      run l (notification now event) = Some e \<longrightarrow>
      handleDatabaseChange run now event em s =
        ((pre @ [l], Rejected e),
         log Log_trigger_update
           (if diff event \<noteq> None then log Log_diff_summary (log Log_event_received s)
            else log Log_event_received s))) \<and>
   (\<forall>e. snd (fst (handleDatabaseChange run now event em s)) = Rejected e \<longrightarrow>
      (\<exists>l \<in> set (em DATA_CHANGED). run l (notification now event) = Some e))"
proof -
  let ?n = "notification now event"
  let ?ok = "\<lambda>l. run l ?n = None"
  let ?s3 = "log Log_trigger_update
           (if diff event \<noteq> None then log Log_diff_summary (log Log_event_received s)
            else log Log_event_received s)"
  have a: "fst (fst (handleDatabaseChange run now event em s)) =
     takeWhile ?ok (em DATA_CHANGED) @ take 1 (dropWhile ?ok (em DATA_CHANGED))"
    by (simp add: handleDatabaseChange_eq call_all_eq)
  have b: "handleDatabaseChange run now event em s =
        ((em DATA_CHANGED, Resolved ()), log Log_event_emitted ?s3)"
    if "\<forall>l \<in> set (em DATA_CHANGED). ?ok l"
    using that
    by (simp add: handleDatabaseChange_def emitter_emit_def call_all_no_throw Let_def)
  have d: "handleDatabaseChange run now event em s = ((pre @ [l], Rejected e), ?s3)"
    if "em DATA_CHANGED = pre @ l # post" "\<forall>x \<in> set pre. ?ok x" "run l ?n = Some e"
    for pre l post e
  proof -
    from that have "call_all run ?n (em DATA_CHANGED) = (pre @ [l], Some e)"
      by (simp add: call_all_eq takeWhile_append1 dropWhile_append1
            takeWhile_append2 dropWhile_append2)
    with that(1) show ?thesis
      by (simp add: handleDatabaseChange_def emitter_emit_def Let_def)
  qed
  have c: "\<exists>l \<in> set (em DATA_CHANGED). run l ?n = Some e"
    if "snd (fst (handleDatabaseChange run now event em s)) = Rejected e" for e
  proof (cases "dropWhile ?ok (em DATA_CHANGED)")
    case Nil
    with that show ?thesis by (simp add: handleDatabaseChange_eq call_all_eq)
  next
    case (Cons l ls)
    then have "l \<in> set (em DATA_CHANGED)"
      by (metis list.set_intros(1) set_dropWhileD)
    moreover from that Cons have "run l ?n = Some e"
      by (simp add: handleDatabaseChange_eq call_all_eq split: option.splits)
    ultimately show ?thesis by blast
  qed
  from a b c d show ?thesis by blast
qed

theorem publish_until_first_throw_witness:
  "two_consumers DATA_CHANGED = [0, 1] \<and>
   fst (handleDatabaseChange none_throws 0 sample_event two_consumers initial_monitoring) =
     ([0, 1], Resolved ()) \<and>
   first_throws 0 (notification 0 sample_event) = Some ''boom'' \<and>
   fst (handleDatabaseChange first_throws 0 sample_event two_consumers initial_monitoring) =
     ([0], Rejected ''boom'') \<and>
   console (snd (handleDatabaseChange first_throws 0 sample_event two_consumers
      initial_monitoring)) = [Log_event_received, Log_trigger_update]"
proof -
  have t: "two_consumers DATA_CHANGED = [] @ 0 # [1]" by (simp add: two_consumers_eq)
  have f: "first_throws 0 (notification 0 sample_event) = Some ''boom''"
    by (simp add: first_throws_def)
  from publish_until_first_throw [of first_throws 0 sample_event two_consumers initial_monitoring] t f
  have "handleDatabaseChange first_throws 0 sample_event two_consumers initial_monitoring =
        (([] @ [0], Rejected ''boom''),
         log Log_trigger_update
           (if diff sample_event \<noteq> None
            then log Log_diff_summary (log Log_event_received initial_monitoring)
            else log Log_event_received initial_monitoring))"
    by (metis empty_iff list.set(1))
  then have r: "fst (handleDatabaseChange first_throws 0 sample_event two_consumers
        initial_monitoring) = ([0], Rejected ''boom'') \<and>
      console (snd (handleDatabaseChange first_throws 0 sample_event two_consumers
        initial_monitoring)) = [Log_event_received, Log_trigger_update]"
    by (simp add: sample_event_def initial_monitoring_def log_def)
  from publish_until_first_throw [of none_throws 0 sample_event two_consumers initial_monitoring]
  have "fst (handleDatabaseChange none_throws 0 sample_event two_consumers initial_monitoring) =
     ([0, 1], Resolved ())"
    by (simp add: two_consumers_eq none_throws_def)
  with r f show ?thesis by (simp add: two_consumers_eq)
qed

text \<open>As stated, the property fails when the first of two callbacks throws: the second
  is never called.\<close>

theorem publish_counterexample:
  "two_consumers DATA_CHANGED = [0, 1] \<and>
   fst (handleDatabaseChange first_throws 0 sample_event two_consumers initial_monitoring) =
     ([0], Rejected ''boom'')"
  by (simp add: two_consumers_eq handleDatabaseChange_eq first_throws_def)

section \<open>The toggle\<close>

text \<open>
  C3. When persisting the flag is rejected, \<open>setDbMonitoringEnabled\<close> rejects with the
  same error; the store differs only by the issued call and the error line, so
  \<open>dbMonitoringEnabled\<close> is unchanged and neither \<open>startListening\<close> nor \<open>stopListening\<close>
  has been called.
\<close>

theorem persist_failure_leaves_state:
  "setDbMonitoringEnabled next (Rejected e) ru s =
     (Rejected e,
      s\<lparr>calls := calls s @ [Invoke (Set_db_monitoring_enabled next)],
        console := console s @ [Err_set_failed e]\<rparr>) \<and>
   fst (setDbMonitoringEnabled next (Rejected e) ru s) = Rejected e \<and>
   dbMonitoringEnabled (snd (setDbMonitoringEnabled next (Rejected e) ru s)) =
     dbMonitoringEnabled s \<and>
   invocations (snd (setDbMonitoringEnabled next (Rejected e) ru s)) = invocations s \<and>
   globalUnlistenFn (snd (setDbMonitoringEnabled next (Rejected e) ru s)) = globalUnlistenFn s \<and>
   registered (snd (setDbMonitoringEnabled next (Rejected e) ru s)) = registered s"
  by (simp add: setDbMonitoringEnabled_def invocations_def env_simps)

text \<open>The console does record the calls: each start and stop adds its first line, and
  a successful switch to off calls \<open>stopListening\<close>.\<close>

lemma start_stop_are_logged:
  "invocations (snd (monitoring_startListening ru rl t)) = invocations t @ [Log_starting] \<and>
   invocations (snd (monitoring_stopListening ru t)) = invocations t @ [Log_stopping]"
  by (cases ru; cases rl; cases "globalUnlistenFn t")
     (simp_all add: monitoring_simps invocations_def env_simps)

lemma setDbMonitoringEnabled_off_stops:
  "invocations (snd (setDbMonitoringEnabled False (Resolved ()) ru t)) =
     invocations t @ [Log_stopping]"
  by (cases ru; cases "globalUnlistenFn t")
     (simp_all add: setDbMonitoringEnabled_def monitoring_simps invocations_def env_simps)

text \<open>The dialog's own handlers keep to the same rule: a rejected save leaves the
  dialog's flag alone and shows the error; a rejected read falls back to \<open>true\<close>.\<close>

lemma dialog_toggle_rejected:
  "handleDbMonitoringToggle enabled (Rejected e) d =
     d\<lparr>dialog_message := Setting_failed e, dialog_messageType := Error\<rparr> \<and>
   isDbMonitoringEnabled (handleDbMonitoringToggle enabled (Rejected e) d) =
     isDbMonitoringEnabled d"
  by (simp add: handleDbMonitoringToggle_def)

lemma dialog_load:
  "isDbMonitoringEnabled (loadCurrentSettings (Rejected e) d) \<and>
   isDbMonitoringEnabled (loadCurrentSettings (Resolved v) d) = v"
  by (simp add: loadCurrentSettings_def)

section \<open>Stopping\<close>

lemma stopListening_stopped:
  "unlistenFn s = None \<Longrightarrow> \<not> isListening s \<Longrightarrow>
   stopListening ru s =
     (Resolved (), s\<lparr>console := console s @ [Log_stopping, Log_listening_state False, Log_stopped]\<rparr>)"
  by (simp add: hook_simps env_simps)

lemma stopListening_resolved:
  "unlistenFn (snd (stopListening (Resolved ()) s)) = None \<and>
   \<not> isListening (snd (stopListening (Resolved ()) s))"
  by (simp add: hook_simps env_simps split: option.splits)

text \<open>
  C4 (as amended). When the handle is already null and the listening flag false,
  \<open>stopListening\<close> resolves and changes nothing but the console: the handle stays
  null, the flag stays false, no backend call is issued; \<open>cleanup\<close> itself does
  nothing. A stop after a stop leaves the same observable state as the single stop
  whenever the first stop found no handle or its unregistration resolved: the first
  stop then ends in the stopped state.
\<close>

theorem stop_when_stopped:
  "(unlistenFn s = None \<and> \<not> isListening s \<longrightarrow>
      stopListening ru s =
        (Resolved (),
         s\<lparr>console := console s @ [Log_stopping, Log_listening_state False, Log_stopped]\<rparr>) \<and>
      cleanup ru s = (Resolved (), s) \<and>
      observable (snd (stopListening ru s)) = observable s) \<and>
   (unlistenFn t = None \<or> ru1 = Resolved () \<longrightarrow>
      fst (stopListening ru2 (snd (stopListening ru1 t))) = Resolved () \<and>
      unlistenFn (snd (stopListening ru1 t)) = None \<and>
      \<not> isListening (snd (stopListening ru1 t)) \<and>
      observable (snd (stopListening ru2 (snd (stopListening ru1 t)))) =
        observable (snd (stopListening ru1 t)))"
proof -
  have one: "stopListening r x =
           (Resolved (),
            x\<lparr>console := console x @ [Log_stopping, Log_listening_state False, Log_stopped]\<rparr>)"
    if "unlistenFn x = None" "\<not> isListening x" for r x
    using that by (rule stopListening_stopped)
  have none: "cleanup ru s = (Resolved (), s)" if "unlistenFn s = None"
    using that by (simp add: cleanup_def)
  have same: "observable (snd (stopListening r x)) = observable x"
    if "unlistenFn x = None" "\<not> isListening x" for r x
    using that by (simp add: stopListening_stopped observable_def)
  have stopped: "unlistenFn (snd (stopListening ru1 t)) = None \<and>
      \<not> isListening (snd (stopListening ru1 t))"
    if "unlistenFn t = None \<or> ru1 = Resolved ()"
    using that stopListening_resolved [of t]
    by (cases "unlistenFn t") (auto simp: stopListening_def cleanup_def setListening_def log_def)
  have two: "fst (stopListening ru2 (snd (stopListening ru1 t))) = Resolved () \<and>
      observable (snd (stopListening ru2 (snd (stopListening ru1 t)))) =
        observable (snd (stopListening ru1 t))"
    if "unlistenFn t = None \<or> ru1 = Resolved ()"
  proof -
    from stopped [OF that] have a: "unlistenFn (snd (stopListening ru1 t)) = None"
      and b: "\<not> isListening (snd (stopListening ru1 t))" by simp_all
    from one [OF a b, of ru2] have "fst (stopListening ru2 (snd (stopListening ru1 t))) = Resolved ()"
      by simp
    with same [OF a b, of ru2] show ?thesis by simp
  qed
  have first: "stopListening ru s =
        (Resolved (),
         s\<lparr>console := console s @ [Log_stopping, Log_listening_state False, Log_stopped]\<rparr>) \<and>
      cleanup ru s = (Resolved (), s) \<and>
      observable (snd (stopListening ru s)) = observable s"
    if "unlistenFn s = None \<and> \<not> isListening s"
    using that one [of s ru] none same [of s ru] by simp
  have second: "fst (stopListening ru2 (snd (stopListening ru1 t))) = Resolved () \<and>
      unlistenFn (snd (stopListening ru1 t)) = None \<and>
      \<not> isListening (snd (stopListening ru1 t)) \<and>
      observable (snd (stopListening ru2 (snd (stopListening ru1 t)))) =
        observable (snd (stopListening ru1 t))"
    if "unlistenFn t = None \<or> ru1 = Resolved ()"
    using stopped [OF that] two [OF that] by simp
  show ?thesis
  proof (rule conjI; rule impI)
    assume "unlistenFn s = None \<and> \<not> isListening s"
    then show "stopListening ru s =
        (Resolved (),
         s\<lparr>console := console s @ [Log_stopping, Log_listening_state False, Log_stopped]\<rparr>) \<and>
      cleanup ru s = (Resolved (), s) \<and>
      observable (snd (stopListening ru s)) = observable s"
      by (rule first)
  next
    assume "unlistenFn t = None \<or> ru1 = Resolved ()"
    then show "fst (stopListening ru2 (snd (stopListening ru1 t))) = Resolved () \<and>
      unlistenFn (snd (stopListening ru1 t)) = None \<and>
      \<not> isListening (snd (stopListening ru1 t)) \<and>
      observable (snd (stopListening ru2 (snd (stopListening ru1 t)))) =
        observable (snd (stopListening ru1 t))"
      by (rule second)
  qed
qed

theorem stop_when_stopped_witness:
  "unlistenFn initial_store = None \<and> \<not> isListening initial_store \<and>
   stopListening (Rejected ''x'') initial_store =
     (Resolved (),
      initial_store\<lparr>console := console initial_store @
         [Log_stopping, Log_listening_state False, Log_stopped]\<rparr>) \<and>
   observable (snd (stopListening (Rejected ''x'') initial_store)) = observable initial_store \<and>
   observable (snd (stopListening (Rejected ''x'')
      (snd (stopListening (Resolved ()) listening_store)))) =
     observable (snd (stopListening (Resolved ()) listening_store)) \<and>
   observable (snd (stopListening (Resolved ()) listening_store)) =
     (None, False, True, [], [Listen, Unlisten 0])"
proof -
  have h1: "unlistenFn initial_store = None" by (simp add: initial_store_def)
  have h2: "\<not> isListening initial_store" by (simp add: initial_store_def)
  have o: "observable (snd (stopListening (Resolved ()) listening_store)) =
     (None, False, True, [], [Listen, Unlisten 0])"
    by (simp add: listening_store_eq observable_def hook_simps env_simps)
  from stop_when_stopped [of initial_store "Rejected ''x''" listening_store "Resolved ()" "Rejected ''x''"]
    h1 h2 o show ?thesis by (simp add: observable_def)
qed

text \<open>As stated for every stop, idempotence fails on the store that listens with
  handle 0: a stop whose unregistration is rejected keeps the handle, and the stop
  after it calls \<open>unlisten\<close> again, which may clear the handle and the registration.\<close>

theorem stop_twice_counterexample:
  "observable (snd (stopListening (Rejected ''unlisten failed'') listening_store)) =
     (Some 0, False, True, [0], [Listen, Unlisten 0]) \<and>
   observable (snd (stopListening (Resolved ())
      (snd (stopListening (Rejected ''unlisten failed'') listening_store)))) =
     (None, False, True, [], [Listen, Unlisten 0, Unlisten 0]) \<and>
   observable (snd (stopListening (Rejected ''unlisten failed'')
      (snd (stopListening (Rejected ''unlisten failed'') listening_store)))) =
     (Some 0, False, True, [0], [Listen, Unlisten 0, Unlisten 0])"
  by (simp add: listening_store_eq observable_def hook_simps env_simps)

text \<open>
  C7 (as amended). When a handle exists and its unregistration is rejected during
  stop, the failure is only logged (stop resolves) and the handle stays in place, in
  both stores; the hook's stop still lowers the listening flag. The handle is cleared
  when the unregistration resolves.
\<close>

theorem stop_keeps_handle_on_failure:
  "(unlistenFn s = Some h \<longrightarrow>
      cleanup (Rejected e) s = (Resolved (), log (Err_cleanup_failed e) (issue (Unlisten h) s)) \<and>
      stopListening (Rejected e) s =
        (Resolved (),
         s\<lparr>calls := calls s @ [Unlisten h],
           console := console s @
             [Log_stopping, Err_cleanup_failed e, Log_listening_state False, Log_stopped],
           isListening := False\<rparr>) \<and>
      unlistenFn (snd (stopListening (Rejected e) s)) = Some h \<and>
      unlistenFn (snd (stopListening (Resolved ()) s)) = None) \<and>
   (globalUnlistenFn t = Some k \<longrightarrow>
      monitoring_stopListening (Rejected e) t =
        (Resolved (),
         t\<lparr>calls := calls t @ [Unlisten k],
           console := console t @ [Log_stopping, Err_cleanup_failed e, Log_stopped]\<rparr>) \<and>
      globalUnlistenFn (snd (monitoring_stopListening (Rejected e) t)) = Some k \<and>
      globalUnlistenFn (snd (monitoring_stopListening (Resolved ()) t)) = None)"
  by (simp add: hook_simps monitoring_simps env_simps)

theorem stop_keeps_handle_on_failure_witness:
  "unlistenFn listening_store = Some 0 \<and>
   unlistenFn (snd (stopListening (Rejected ''unlisten failed'') listening_store)) = Some 0 \<and>
   unlistenFn (snd (stopListening (Resolved ()) listening_store)) = None"
  using stop_keeps_handle_on_failure [of listening_store 0 "''unlisten failed''"]
  by (simp add: listening_store_eq)

text \<open>As stated (the handle is cleared regardless), the property fails on the store
  that listens with handle 0: after a stop whose unregistration is rejected the handle
  is still 0.\<close>

theorem stop_failure_counterexample:
  "unlistenFn listening_store = Some 0 \<and>
   unlistenFn (snd (stopListening (Rejected ''unlisten failed'') listening_store)) = Some 0 \<and>
   unlistenFn (snd (stopListening (Rejected ''unlisten failed'') listening_store)) \<noteq> None"
  by (simp add: listening_store_eq hook_simps env_simps)

section \<open>Unregistering a consumer\<close>

lemma remove_last_absent: "l \<notin> set xs \<Longrightarrow> rev (remove1 l (rev xs)) = xs"
  by (simp add: remove1_idem)

lemma remove_last_others:
  "filter (\<lambda>x. x \<noteq> l) (rev (remove1 l (rev xs))) = filter (\<lambda>x. x \<noteq> l) xs"
proof -
  have "filter (\<lambda>x. x \<noteq> l) (remove1 l ys) = filter (\<lambda>x. x \<noteq> l) ys" for ys
    by (induction ys) auto
  then show ?thesis by (simp add: rev_filter [symmetric])
qed

lemma remove1_single: "count_list ys l \<le> 1 \<Longrightarrow> l \<notin> set (remove1 l ys)"
  by (induction ys) (auto simp: count_list_0_iff split: if_splits)

lemma remove_last_count:
  "count_list (rev (remove1 l (rev xs))) l = count_list xs l - 1"
proof -
  have "count_list (remove1 l ys) l = count_list ys l - 1" for ys
    by (induction ys) (auto simp: count_list_0_iff)
  then show ?thesis by (simp add: count_list_rev)
qed

text \<open>
  C5 (as amended). Calling the unsubscribe closure of a callback never fails. With a
  callback that is not registered it changes nothing. Called once or twice, it leaves
  the registrations of every other callback in place and in order, for every event.
  Each call removes one registration of its callback, if there is one; so when the
  callback is registered at most once the second call changes nothing.
\<close>

theorem unsubscribe_spec:
  "(l \<notin> set (em ev) \<longrightarrow> unsubscribe (ev, l) em = em) \<and>
   (count_list (em ev) l \<le> 1 \<longrightarrow>
      unsubscribe (ev, l) (unsubscribe (ev, l) em) = unsubscribe (ev, l) em) \<and>
   filter (\<lambda>x. x \<noteq> l) (unsubscribe (ev, l) em ev') = filter (\<lambda>x. x \<noteq> l) (em ev') \<and>
   filter (\<lambda>x. x \<noteq> l) (unsubscribe (ev, l) (unsubscribe (ev, l) em) ev') =
     filter (\<lambda>x. x \<noteq> l) (em ev') \<and>
   count_list (unsubscribe (ev, l) em ev) l = count_list (em ev) l - 1"
proof -
  have a: "unsubscribe (ev, l) em = em" if "l \<notin> set (em ev)"
    using that by (simp add: unsubscribe_def emitter_off_def remove_last_absent)
  have b: "unsubscribe (ev, l) (unsubscribe (ev, l) em) = unsubscribe (ev, l) em"
    if "count_list (em ev) l \<le> 1"
  proof -
    from that have "count_list (rev (em ev)) l \<le> 1" by (simp add: count_list_rev)
    then have "l \<notin> set (remove1 l (rev (em ev)))" by (rule remove1_single)
    then show ?thesis
      by (simp add: unsubscribe_def emitter_off_def remove1_idem)
  qed
  have c: "filter (\<lambda>x. x \<noteq> l) (unsubscribe (ev, l) m ev') = filter (\<lambda>x. x \<noteq> l) (m ev')" for m
    by (simp add: unsubscribe_def emitter_off_def remove_last_others)
  have d: "count_list (unsubscribe (ev, l) em ev) l = count_list (em ev) l - 1"
    by (simp add: unsubscribe_def emitter_off_def remove_last_count)
  from a b c [of em] c [of "unsubscribe (ev, l) em"] d show ?thesis by simp
qed

theorem unsubscribe_spec_witness:
  "3 \<notin> set (two_consumers DATA_CHANGED) \<and>
   unsubscribe (DATA_CHANGED, 3) two_consumers = two_consumers \<and>
   count_list (two_consumers DATA_CHANGED) 0 \<le> 1 \<and>
   unsubscribe (DATA_CHANGED, 0) (unsubscribe (DATA_CHANGED, 0) two_consumers) =
     unsubscribe (DATA_CHANGED, 0) two_consumers \<and>
   unsubscribe (DATA_CHANGED, 0) two_consumers DATA_CHANGED = [1]"
  using unsubscribe_spec [of 3 two_consumers DATA_CHANGED]
    unsubscribe_spec [of 0 two_consumers DATA_CHANGED]
  by (simp add: two_consumers_eq unsubscribe_def emitter_off_def)

text \<open>As stated, the property fails when two consumers registered the same callback:
  both got the handle \<open>(DATA_CHANGED, 7)\<close>, and calling one of them twice removes both
  registrations; the next notification reaches no one.\<close>

theorem unsubscribe_counterexample:
  "fst (addListener DATA_CHANGED 7 new_emitter) = (DATA_CHANGED, 7) \<and>
   same_callback_twice DATA_CHANGED = [7, 7] \<and>
   unsubscribe (DATA_CHANGED, 7) same_callback_twice DATA_CHANGED = [7] \<and>
   unsubscribe (DATA_CHANGED, 7) (unsubscribe (DATA_CHANGED, 7) same_callback_twice) DATA_CHANGED
     = [] \<and>
   fst (handleDatabaseChange none_throws 0 sample_event
          (unsubscribe (DATA_CHANGED, 7) (unsubscribe (DATA_CHANGED, 7) same_callback_twice))
          initial_monitoring) = ([], Resolved ())"
  by (simp add: same_callback_twice_eq unsubscribe_def emitter_off_def addListener_def
        handleDatabaseChange_eq)

section \<open>Loading the setting\<close>

text \<open>
  C6. When the read of the flag is rejected, \<open>loadSettings\<close> raises nothing and writes
  the default \<open>true\<close> to the store, but the value it resolves to is \<open>undefined\<close>, not
  \<open>true\<close>. When the read resolves with \<open>v\<close> it resolves to \<open>v\<close>.
\<close>

theorem loadSettings_rejected:
  "loadSettings (Rejected e) ru rl s =
     (Resolved None,
      s\<lparr>calls := calls s @ [Invoke Is_db_monitoring_enabled],
        console := console s @ [Err_load_failed e],
        dbMonitoringEnabled := True\<rparr>) \<and>
   fst (loadSettings (Rejected e) ru rl s) \<noteq> Resolved (Some True) \<and>
   fst (loadSettings (Resolved v) ru rl s) = Resolved (Some v)"
  by (simp add: loadSettings_def env_simps Let_def split: prod.splits)

section \<open>Starting\<close>

text \<open>
  C8 (as amended). When the channel registration of a start is rejected, no handle is
  stored: the handle is what \<open>cleanup\<close> left (none, unless an earlier handle could not
  be unregistered), the hook's listening flag is false and no registration is added.
  The error is logged, not surfaced: the start resolves. A later start whose
  registration resolves stores the new handle.
\<close>

theorem start_registration_failure:
  "fst (startListening ru (Rejected e) s) = Resolved () \<and>
   unlistenFn (snd (startListening ru (Rejected e) s)) =
     (case ru of Resolved _ \<Rightarrow> None | Rejected _ \<Rightarrow> unlistenFn s) \<and>
   \<not> isListening (snd (startListening ru (Rejected e) s)) \<and>
   registered (snd (startListening ru (Rejected e) s)) = registered (snd (cleanup ru s)) \<and>
   Err_start_failed e \<in> set (console (snd (startListening ru (Rejected e) s))) \<and>
   unlistenFn (snd (startListening ru' (Resolved ()) (snd (startListening ru (Rejected e) s)))) =
     Some (next_id s) \<and>
   isListening (snd (startListening ru' (Resolved ()) (snd (startListening ru (Rejected e) s)))) \<and>
   next_id s \<in> set (registered
      (snd (startListening ru' (Resolved ()) (snd (startListening ru (Rejected e) s))))) \<and>
   fst (monitoring_startListening ru (Rejected e) t) = Resolved () \<and>
   globalUnlistenFn (snd (monitoring_startListening ru (Rejected e) t)) =
     (case ru of Resolved _ \<Rightarrow> None | Rejected _ \<Rightarrow> globalUnlistenFn t) \<and>
   registered (snd (monitoring_startListening ru (Rejected e) t)) =
     registered (snd (monitoring_cleanup ru t)) \<and>
   Err_start_failed e \<in> set (console (snd (monitoring_startListening ru (Rejected e) t))) \<and>
   globalUnlistenFn (snd (monitoring_startListening ru' (Resolved ())
      (snd (monitoring_startListening ru (Rejected e) t)))) = Some (next_id t)"
proof -
  have hook: "fst (startListening ru (Rejected e) s) = Resolved () \<and>
   unlistenFn (snd (startListening ru (Rejected e) s)) =
     (case ru of Resolved _ \<Rightarrow> None | Rejected _ \<Rightarrow> unlistenFn s) \<and>
   \<not> isListening (snd (startListening ru (Rejected e) s)) \<and>
   registered (snd (startListening ru (Rejected e) s)) = registered (snd (cleanup ru s)) \<and>
   Err_start_failed e \<in> set (console (snd (startListening ru (Rejected e) s))) \<and>
   unlistenFn (snd (startListening ru' (Resolved ()) (snd (startListening ru (Rejected e) s)))) =
     Some (next_id s) \<and>
   isListening (snd (startListening ru' (Resolved ()) (snd (startListening ru (Rejected e) s)))) \<and>
   next_id s \<in> set (registered
      (snd (startListening ru' (Resolved ()) (snd (startListening ru (Rejected e) s)))))"
    by (cases ru; cases ru'; cases "unlistenFn s") (simp_all add: hook_simps env_simps)
  have store: "fst (monitoring_startListening ru (Rejected e) t) = Resolved () \<and>
   globalUnlistenFn (snd (monitoring_startListening ru (Rejected e) t)) =
     (case ru of Resolved _ \<Rightarrow> None | Rejected _ \<Rightarrow> globalUnlistenFn t) \<and>
   registered (snd (monitoring_startListening ru (Rejected e) t)) =
     registered (snd (monitoring_cleanup ru t)) \<and>
   Err_start_failed e \<in> set (console (snd (monitoring_startListening ru (Rejected e) t))) \<and>
   globalUnlistenFn (snd (monitoring_startListening ru' (Resolved ())
      (snd (monitoring_startListening ru (Rejected e) t)))) = Some (next_id t)"
    by (cases ru; cases ru'; cases "globalUnlistenFn t") (simp_all add: monitoring_simps env_simps)
  from hook store show ?thesis by simp
qed

text \<open>As stated (the error is surfaced to the caller), the property fails from the
  initial store: the start whose registration is rejected resolves.\<close>

theorem start_failure_counterexample:
  "fst (startListening (Resolved ()) (Rejected ''channel closed'') initial_store) = Resolved () \<and>
   fst (startListening (Resolved ()) (Rejected ''channel closed'') initial_store)
     \<noteq> Rejected ''channel closed''"
  by (simp add: initial_store_def hook_simps env_simps)

section \<open>Page visibility\<close>

text \<open>
  C9. The visibility handler only logs: the handle, the listening flag and the
  monitoring setting are the same before and after it runs, in both stores, as are the
  live registrations and the calls issued.
\<close>

theorem visibility_change_frame:
  "handleVisibilityChange hidden s =
     s\<lparr>console := console s @ [if hidden then Log_page_hidden else Log_page_shown]\<rparr> \<and>
   unlistenFn (handleVisibilityChange hidden s) = unlistenFn s \<and>
   isListening (handleVisibilityChange hidden s) = isListening s \<and>
   isAutoRefreshEnabled (handleVisibilityChange hidden s) = isAutoRefreshEnabled s \<and>
   observable (handleVisibilityChange hidden s) = observable s \<and>
   dbMonitoringEnabled (handleVisibilityChange hidden t) = dbMonitoringEnabled t \<and>
   globalUnlistenFn (handleVisibilityChange hidden t) = globalUnlistenFn t \<and>
   registered (handleVisibilityChange hidden t) = registered t \<and>
   calls (handleVisibilityChange hidden t) = calls t"
  by (simp add: handleVisibilityChange_def log_def observable_def)

section \<open>Password validation: results\<close>

text \<open>
  C10. \<open>validatePassword\<close> accepts a password exactly when its length is between 4 and
  50 code units; a rejected password comes with a non-empty message. The function has
  no failing branch: every string gets a result.
\<close>

theorem validatePassword_spec:
  "(isValid (validatePassword p) \<longleftrightarrow> 4 \<le> length p \<and> length p \<le> 50) \<and>
   (\<not> isValid (validatePassword p) \<longrightarrow>
      (\<exists>m. message (validatePassword p) = Some m \<and> m \<noteq> []))"
  by (simp add: validatePassword_def msg_too_short_def msg_too_long_def)

theorem validatePassword_spec_witness:
  "\<not> isValid (validatePassword [0x61, 0x62, 0x63]) \<and>
   (\<exists>m. message (validatePassword [0x61, 0x62, 0x63]) = Some m \<and> m \<noteq> []) \<and>
   isValid (validatePassword [0x61, 0x62, 0x63, 0x64])"
  using validatePassword_spec [of "[0x61, 0x62, 0x63]"]
    validatePassword_spec [of "[0x61, 0x62, 0x63, 0x64]"]
  by simp

end
